theory Spec2Isabelle
  imports Main "HOL-Library.Char_ord" "HOL-Library.List_Lexorder" "HOL-Library.Sublist"
begin

section \<open>The storage pool of syncly.py\<close>

text \<open>
  A shallow embedding of \<^verbatim>\<open>learning/rihal/Demo 1/syncly.py\<close>: the upload planner
  (\<^verbatim>\<open>upload_file\<close>), the metadata document, and the two download paths
  (\<^verbatim>\<open>download_using_metadata\<close>, \<^verbatim>\<open>download_from_all_buckets\<close>).

  Conventions.
  \<^item> A byte is a \<^typ>\<open>char\<close> (8 bits in HOL), a file's contents a \<^typ>\<open>char list\<close>.
  \<^item> Python compares strings by code point, lists of them lexicographically; this is the
    order of \<^typ>\<open>char list\<close> from \<^verbatim>\<open>Char_ord\<close> and \<^verbatim>\<open>List_Lexorder\<close>.
    \<^verbatim>\<open>list.sort\<close> and \<^verbatim>\<open>sorted\<close> are stable, as \<^const>\<open>sort_key\<close> is.
  \<^item> Every path the download functions build is \<^verbatim>\<open>os.path.join(save_path, name)\<close>
    with one fixed \<^verbatim>\<open>save_path\<close>; the directory is modelled as a map from the name
    to the contents, and sorting paths is sorting names (they share the prefix).
  \<^item> The \<^verbatim>\<open>mimetype\<close> argument and the progress messages have no effect on the
    state and are left out. \<^verbatim>\<open>file_path\<close> is represented by the bytes stored there.
\<close>

subsection \<open>Data model\<close>

type_synonym bucket = string
type_synonym bytes = "char list"

text \<open>One entry of \<^verbatim>\<open>metadata["chunks"]\<close> and one entry of the metadata document.\<close>

record chunk_record =
  chunk_name :: string
  file_id :: nat
  bucket :: bucket

record file_record =
  file_name :: string
  chunks :: "chunk_record list"

text \<open>
  The Google Drive account behind one token file. It is outside the repository; the model
  keeps what the program observes of it:
  \<^item> \<open>storage_quota\<close>: the pair \<open>(limit, usage)\<close> that \<^verbatim>\<open>about().get\<close> reports, or
    \<open>None\<close> when the query (or the conversion of its fields) raises;
  \<^item> \<open>room\<close>: the number of bytes the account really accepts. The program reads the quota
    once per upload, so the figure it plans with may be stale; a \<^verbatim>\<open>create\<close> of more
    than \<open>room\<close> bytes is rejected with \<^verbatim>\<open>storageQuotaExceeded\<close>;
  \<^item> \<open>broken\<close>: \<^verbatim>\<open>create\<close> fails with some other \<^verbatim>\<open>HttpError\<close>;
  \<^item> \<open>objects\<close>: the remote objects as (name, contents), in creation order. Objects are
    never deleted by the program, and the identifier of an object is its position.
\<close>

record drive_account =
  storage_quota :: "(int \<times> int) option"
  room :: nat
  broken :: bool
  objects :: "(string \<times> bytes) list"

text \<open>
  The file \<^verbatim>\<open>metadata.json\<close>:
  \<^item> \<open>Missing\<close>: absent; \<open>Empty_file\<close>: of size 0;
  \<^item> \<open>Undecodable\<close>: bytes that are not text in the encoding the file is opened with
    (not valid UTF-8, say), on which \<^verbatim>\<open>json.load\<close> raises \<^verbatim>\<open>UnicodeDecodeError\<close>;
  \<^item> \<open>Invalid_json\<close>: text that is not a JSON document, on which \<^verbatim>\<open>json.load\<close>
    raises \<^verbatim>\<open>json.JSONDecodeError\<close>;
  \<^item> a JSON array of records, or a single JSON object (\<^verbatim>\<open>upload_file\<close> wraps a
    non-list value in a list).
  Documents of other shapes (an array whose elements are not records) are not modelled.
\<close>

datatype metadata_file =
    Missing
  | Empty_file
  | Undecodable
  | Invalid_json
  | Json_list "file_record list"
  | Json_object file_record

text \<open>
  \<open>token_dir\<close> is the result of \<^verbatim>\<open>get_all_authenticated_buckets()\<close>, in the order of
  \<^verbatim>\<open>os.listdir\<close>; \<open>service b\<close> is the account \<^verbatim>\<open>authenticate_account(b)\<close> connects to.
\<close>

record world =
  token_dir :: "bucket list"
  service :: "bucket \<Rightarrow> drive_account"
  metadata_doc :: metadata_file
  save_dir :: "string \<rightharpoonup> bytes"

datatype http_fault = Storage_quota_exceeded | Other_http_error

text \<open>
  \<open>Not_enough_space\<close> is the early \<^verbatim>\<open>return\<close> after \<^verbatim>\<open>print("Not enough space.")\<close>;
  the others are the exceptions that leave \<^verbatim>\<open>upload_file\<close> and the download functions.
\<close>

datatype error =
    Not_enough_space
  | Index_error
  | Runtime_error
  | Http_error http_fault
  | Type_error
  | Json_decode_error
  | Unicode_decode_error
  | File_not_found_error

subsection \<open>Decimal rendering, as in the f-strings\<close>

definition digit_char :: "nat \<Rightarrow> char" where
  "digit_char d = ''0123456789'' ! (d mod 10)"

function str_nat :: "nat \<Rightarrow> string" where
  "str_nat n = (if n < 10 then [digit_char n] else str_nat (n div 10) @ [digit_char (n mod 10)])"
  by pat_completeness auto
termination
  by (relation "measure id") auto

declare str_nat.simps [simp del]

text \<open>\<^verbatim>\<open>f'{file_name}_part{chunk_index + 1}'\<close>\<close>

definition part_name :: "string \<Rightarrow> nat \<Rightarrow> string" where
  "part_name fname chunk_index = fname @ ''_part'' @ str_nat (chunk_index + 1)"

subsection \<open>The Drive service\<close>

text \<open>\<^verbatim>\<open>service.files().create(media_body=..., body={'name': name}).execute()\<close>\<close>

definition create_object :: "bucket \<Rightarrow> string \<Rightarrow> bytes \<Rightarrow> world \<Rightarrow> (http_fault + nat) \<times> world" where
  "create_object b name content w =
     (let a = service w b in
      if broken a then (Inl Other_http_error, w)
      else if room a < length content then (Inl Storage_quota_exceeded, w)
      else (Inr (length (objects a)),
            w\<lparr>service := (service w)(b := a\<lparr>
                 storage_quota := map_option (\<lambda>(l, u). (l, u + int (length content))) (storage_quota a),
                 room := room a - length content,
                 objects := objects a @ [(name, content)]\<rparr>)\<rparr>))"

definition check_storage :: "drive_account \<Rightarrow> int \<times> int" where
  "check_storage a = (case storage_quota a of Some (limit, usage) \<Rightarrow> (limit, usage) | None \<Rightarrow> (0, 0))"

definition upload_chunk :: "bucket \<Rightarrow> bytes \<Rightarrow> string \<Rightarrow> nat \<Rightarrow> world \<Rightarrow> (http_fault + nat) \<times> world" where
  "upload_chunk b chunk fname chunk_index w = create_object b (part_name fname chunk_index) chunk w"

subsection \<open>upload_file\<close>

text \<open>Lines 170-176: the loop over the buckets that builds \<^verbatim>\<open>total_free\<close> and \<^verbatim>\<open>free_space\<close>.\<close>

fun scan_storage :: "world \<Rightarrow> bucket list \<Rightarrow> int \<times> (int \<times> bucket) list \<Rightarrow> int \<times> (int \<times> bucket) list" where
  "scan_storage w [] acc = acc"
| "scan_storage w (b # bs) (total_free, free_space) =
     (let (limit, usage) = check_storage (service w b);
          free = limit - usage
      in scan_storage w bs
           (total_free + free, if free > 0 then free_space @ [(free, b)] else free_space))"

text \<open>Lines 203-208: the first entry with \<^verbatim>\<open>bucket_free > 0\<close>, with its index.\<close>

fun first_positive :: "(int \<times> bucket) list \<Rightarrow> nat \<Rightarrow> (nat \<times> int \<times> bucket) option" where
  "first_positive [] i = None"
| "first_positive ((bucket_free, bucket_id) # rest) i =
     (if bucket_free > 0 then Some (i, bucket_free, bucket_id) else first_positive rest (Suc i))"

text \<open>
  Lines 197-249, the \<^verbatim>\<open>while offset < file_size\<close> loop. \<^verbatim>\<open>if not selected_bucket\<close>
  is true for \<^verbatim>\<open>None\<close> and for the empty string. After a \<^verbatim>\<open>storageQuotaExceeded\<close>
  the inner loop is left with \<^verbatim>\<open>file_id\<close> still \<^verbatim>\<open>None\<close>, which raises the
  \<^verbatim>\<open>RuntimeError\<close> of line 237 (the entry set to 0 on line 230 is never read again).
  The result is the \<^verbatim>\<open>metadata["chunks"]\<close> list when the loop is left normally.
\<close>

function chunk_loop ::
  "string \<Rightarrow> bytes \<Rightarrow> (int \<times> bucket) list \<Rightarrow> nat \<Rightarrow> nat \<Rightarrow> chunk_record list \<Rightarrow> world
     \<Rightarrow> (error + chunk_record list) \<times> world" where
  "chunk_loop fname content free_space offset chunk_index cs w =
     (if offset < length content then
        (let free_space = sort_key fst free_space in
         case first_positive free_space 0 of
           None \<Rightarrow> (Inr cs, w)
         | Some (selected_index, bucket_free, selected_bucket) \<Rightarrow>
             if selected_bucket = [] then (Inr cs, w)
             else
               (let chunk_size = nat (min bucket_free (int (length content - offset)));
                    chunk = take chunk_size (drop offset content)
                in case upload_chunk selected_bucket chunk fname chunk_index w of
                     (Inl Storage_quota_exceeded, w') \<Rightarrow> (Inl Runtime_error, w')
                   | (Inl Other_http_error, w') \<Rightarrow> (Inl (Http_error Other_http_error), w')
                   | (Inr fid, w') \<Rightarrow>
                       chunk_loop fname content
                         (free_space[selected_index := (bucket_free - int chunk_size, selected_bucket)])
                         (offset + chunk_size) (chunk_index + 1)
                         (cs @ [\<lparr>chunk_name = part_name fname chunk_index, file_id = fid,
                                 bucket = selected_bucket\<rparr>])
                         w'))
      else (Inr cs, w))"
  by pat_completeness auto
termination
proof (relation "measure (\<lambda>(fname, content, free_space, offset, chunk_index, cs, w). length content - offset)",
       goal_cases)
  case 1
  show ?case by simp
next
  case (2 fname content free_space offset chunk_index cs w fs sel x y bucket_free selected_bucket)
  have pos: "first_positive xs i = Some (j, f, b) \<Longrightarrow> 0 < f" for xs i j f b
    by (induction xs i rule: first_positive.induct) (auto split: if_splits)
  from 2 show ?case
    using pos [of fs 0] by auto
qed

declare chunk_loop.simps [simp del]

text \<open>
  Lines 252-262: what \<^verbatim>\<open>existing_metadata\<close> is read as. The handler of line 258 catches
  \<^verbatim>\<open>json.JSONDecodeError\<close> only, so the \<^verbatim>\<open>UnicodeDecodeError\<close> of a document that
  cannot be decoded leaves \<^verbatim>\<open>upload_file\<close>.
\<close>

definition load_metadata :: "metadata_file \<Rightarrow> error + file_record list" where
  "load_metadata d =
     (case d of
        Missing \<Rightarrow> Inr []
      | Empty_file \<Rightarrow> Inr []
      | Undecodable \<Rightarrow> Inl Unicode_decode_error
      | Invalid_json \<Rightarrow> Inr []
      | Json_list rs \<Rightarrow> Inr rs
      | Json_object r \<Rightarrow> Inr [r])"

text \<open>Lines 251-268: read the document, append, rewrite.\<close>

definition update_metadata :: "file_record \<Rightarrow> world \<Rightarrow> (error + unit) \<times> world" where
  "update_metadata metadata w =
     (case load_metadata (metadata_doc w) of
        Inl e \<Rightarrow> (Inl e, w)
      | Inr existing_metadata \<Rightarrow>
          (Inr (), w\<lparr>metadata_doc := Json_list (existing_metadata @ [metadata])\<rparr>))"

definition upload_file :: "bytes \<Rightarrow> string \<Rightarrow> world \<Rightarrow> (error + unit) \<times> world" where
  "upload_file content fname w =
     (let file_size = int (length content);
          (total_free, free_space) = scan_storage w (token_dir w) (0, [])
      in if total_free < file_size then (Inl Not_enough_space, w)
         else
           (case sort_key (\<lambda>x. - fst x) free_space of
              [] \<Rightarrow> (Inl Index_error, w)
            | (best_free, best_bucket) # rest \<Rightarrow>
                if best_free \<ge> file_size then
                  (case create_object best_bucket fname content w of
                     (Inl e, w') \<Rightarrow> (Inl (Http_error e), w')
                   | (Inr fid, w') \<Rightarrow>
                       update_metadata
                         \<lparr>file_name = fname,
                          chunks = [\<lparr>chunk_name = fname, file_id = fid, bucket = best_bucket\<rparr>]\<rparr> w')
                else
                  (case chunk_loop fname content ((best_free, best_bucket) # rest) 0 0 [] w of
                     (Inl e, w') \<Rightarrow> (Inl e, w')
                   | (Inr cs, w') \<Rightarrow>
                       update_metadata \<lparr>file_name = fname, chunks = cs\<rparr> w')))"

subsection \<open>Download\<close>

text \<open>
  \<^verbatim>\<open>download_file\<close>: the object's name is asked from the service, the bytes are written
  to \<^verbatim>\<open>save_path/name\<close> and the path is returned; any exception gives \<^verbatim>\<open>None\<close>.
\<close>

definition download_file :: "bucket \<Rightarrow> nat \<Rightarrow> world \<Rightarrow> string option \<times> world" where
  "download_file b fid w =
     (let objs = objects (service w b) in
      if fid < length objs then
        (case objs ! fid of (name, content) \<Rightarrow>
           (Some name, w\<lparr>save_dir := (save_dir w)(name \<mapsto> content)\<rparr>))
      else (None, w))"

text \<open>
  \<^verbatim>\<open>merge_chunks\<close>: the merged file is opened for writing (and so truncated), then the
  chunk files are appended in the order of \<^verbatim>\<open>sorted(file_paths)\<close>. Writes are taken
  to be visible at once, which matters only if a chunk path is the merged path itself.
\<close>

fun write_chunks ::
  "string list \<Rightarrow> string \<Rightarrow> (string \<rightharpoonup> bytes) \<Rightarrow> (error + unit) \<times> (string \<rightharpoonup> bytes)" where
  "write_chunks [] merged fs = (Inr (), fs)"
| "write_chunks (chunk_path # rest) merged fs =
     (case fs chunk_path of
        None \<Rightarrow> (Inl File_not_found_error, fs)
      | Some chunk \<Rightarrow>
          write_chunks rest merged
            (fs(merged \<mapsto> (case fs merged of None \<Rightarrow> [] | Some m \<Rightarrow> m) @ chunk)))"

definition merge_chunks ::
  "string list \<Rightarrow> string \<Rightarrow> (string \<rightharpoonup> bytes) \<Rightarrow> (error + unit) \<times> (string \<rightharpoonup> bytes)" where
  "merge_chunks file_paths merged fs = write_chunks (sort file_paths) merged (fs(merged \<mapsto> []))"

text \<open>\<^verbatim>\<open>for path in chunk_paths: os.remove(path)\<close>\<close>

fun remove_all :: "string list \<Rightarrow> (string \<rightharpoonup> bytes) \<Rightarrow> (error + unit) \<times> (string \<rightharpoonup> bytes)" where
  "remove_all [] fs = (Inr (), fs)"
| "remove_all (path # rest) fs =
     (if fs path = None then (Inl File_not_found_error, fs)
      else remove_all rest (fs(path := None)))"

definition merge_and_remove :: "string list \<Rightarrow> string list \<Rightarrow> string \<Rightarrow> world \<Rightarrow> (error + unit) \<times> world" where
  "merge_and_remove merge_paths chunk_paths merged w =
     (case merge_chunks merge_paths merged (save_dir w) of
        (Inl e, fs) \<Rightarrow> (Inl e, w\<lparr>save_dir := fs\<rparr>)
      | (Inr u, fs) \<Rightarrow>
          (case remove_all chunk_paths fs of (r, fs') \<Rightarrow> (r, w\<lparr>save_dir := fs'\<rparr>)))"

text \<open>Lines 320-328: fetch every chunk of the record, stop at the first failure.\<close>

fun download_chunks :: "chunk_record list \<Rightarrow> string list \<Rightarrow> world \<Rightarrow> string list option \<times> world" where
  "download_chunks [] chunk_paths w = (Some chunk_paths, w)"
| "download_chunks (chunk # rest) chunk_paths w =
     (case download_file (bucket chunk) (file_id chunk) w of
        (None, w') \<Rightarrow> (None, w')
      | (Some downloaded_path, w') \<Rightarrow> download_chunks rest (chunk_paths @ [downloaded_path]) w')"

text \<open>
  \<^verbatim>\<open>download_using_metadata\<close>. Nothing is caught around its \<^verbatim>\<open>json.load\<close>. A
  document that is a single JSON object is iterated by its keys, and indexing a key with
  \<^verbatim>\<open>'file_name'\<close> raises \<^verbatim>\<open>TypeError\<close>.
\<close>

definition download_using_metadata :: "string \<Rightarrow> world \<Rightarrow> (error + unit) \<times> world" where
  "download_using_metadata fname w =
     (case metadata_doc w of
        Missing \<Rightarrow> (Inr (), w)
      | Empty_file \<Rightarrow> (Inl Json_decode_error, w)
      | Undecodable \<Rightarrow> (Inl Unicode_decode_error, w)
      | Invalid_json \<Rightarrow> (Inl Json_decode_error, w)
      | Json_object r \<Rightarrow> (Inl Type_error, w)
      | Json_list metadata_list \<Rightarrow>
          (case find (\<lambda>md. file_name md = fname) metadata_list of
             None \<Rightarrow> (Inr (), w)
           | Some target_metadata \<Rightarrow>
               (let cs = chunks target_metadata in
                if length cs = 1 \<and> chunk_name (cs ! 0) = fname
                then (Inr (), snd (download_file (bucket (cs ! 0)) (file_id (cs ! 0)) w))
                else
                  (case download_chunks cs [] w of
                     (None, w') \<Rightarrow> (Inr (), w')
                   | (Some chunk_paths, w') \<Rightarrow>
                       merge_and_remove (sort chunk_paths) chunk_paths fname w'))))"

text \<open>
  The fallback of \<^verbatim>\<open>download_from_all_buckets\<close> (lines 350-375). The two
  \<^verbatim>\<open>files().list\<close> queries are answered from the account's objects in creation order;
  \<^verbatim>\<open>name contains\<close> is taken as substring containment.
\<close>

fun name_contains :: "string \<Rightarrow> string \<Rightarrow> bool" where
  "name_contains [] q = (q = [])"
| "name_contains (c # s) q = (prefix q (c # s) \<or> name_contains s q)"

definition list_files :: "drive_account \<Rightarrow> (string \<Rightarrow> bool) \<Rightarrow> (nat \<times> string) list" where
  "list_files a q = filter (\<lambda>(fid, name). q name) (enumerate 0 (map fst (objects a)))"

fun download_parts :: "bucket \<Rightarrow> (nat \<times> string) list \<Rightarrow> string list \<Rightarrow> world \<Rightarrow> string list \<times> world" where
  "download_parts b [] chunk_paths w = (chunk_paths, w)"
| "download_parts b (part # rest) chunk_paths w =
     (case download_file b (fst part) w of
        (None, w') \<Rightarrow> download_parts b rest chunk_paths w'
      | (Some downloaded, w') \<Rightarrow> download_parts b rest (chunk_paths @ [downloaded]) w')"

fun search_buckets :: "bucket list \<Rightarrow> string \<Rightarrow> world \<Rightarrow> (error + unit) \<times> world" where
  "search_buckets [] fname w = (Inr (), w)"
| "search_buckets (b # bs) fname w =
     (case list_files (service w b) (\<lambda>name. name = fname) of
        file # others \<Rightarrow> (Inr (), snd (download_file b (fst file) w))
      | [] \<Rightarrow>
          (case list_files (service w b) (\<lambda>name. name_contains name (fname @ ''_part'')) of
             [] \<Rightarrow> search_buckets bs fname w
           | part # others \<Rightarrow>
               (case download_parts b (sort_key snd (part # others)) [] w of
                  ([], w') \<Rightarrow> search_buckets bs fname w'
                | (chunk_paths, w') \<Rightarrow> merge_and_remove chunk_paths chunk_paths fname w')))"

definition download_from_all_buckets :: "string \<Rightarrow> world \<Rightarrow> (error + unit) \<times> world" where
  "download_from_all_buckets fname w =
     (case metadata_doc w of
        Json_list metadata_list \<Rightarrow>
          if \<exists>md \<in> set metadata_list. file_name md = fname
          then download_using_metadata fname w
          else search_buckets (token_dir w) fname w
      | Json_object r \<Rightarrow> (Inl Type_error, w)
      | Undecodable \<Rightarrow> (Inl Unicode_decode_error, w)
      | Missing \<Rightarrow> search_buckets (token_dir w) fname w
      | Empty_file \<Rightarrow> search_buckets (token_dir w) fname w
      | Invalid_json \<Rightarrow> search_buckets (token_dir w) fname w)"

subsection \<open>The quantities the specification speaks of\<close>

text \<open>\<open>free_bytes = total_bytes - used_bytes\<close>, a failed capacity query counting as \<open>(0, 0)\<close>.\<close>

definition free_bytes :: "world \<Rightarrow> bucket \<Rightarrow> int" where
  "free_bytes w b = (case check_storage (service w b) of (limit, usage) \<Rightarrow> limit - usage)"

definition total_free_bytes :: "world \<Rightarrow> int" where
  "total_free_bytes w = sum_list (map (free_bytes w) (token_dir w))"

text \<open>The records of a metadata document that can be read; an undecodable one yields none.\<close>

definition directory :: "metadata_file \<Rightarrow> file_record list" where
  "directory d = (case load_metadata d of Inl e \<Rightarrow> [] | Inr rs \<Rightarrow> rs)"




text \<open>The backends with positive free space, in registry order.\<close>

definition candidates :: "world \<Rightarrow> (int \<times> bucket) list" where
  "candidates w = map (\<lambda>b. (free_bytes w b, b)) (filter (\<lambda>b. 0 < free_bytes w b) (token_dir w))"

text \<open>Worlds used as concrete inputs.\<close>

definition fresh_account :: "int \<Rightarrow> int \<Rightarrow> drive_account" where
  "fresh_account limit usage =
     \<lparr>storage_quota = Some (limit, usage), room = nat (limit - usage), broken = False, objects = []\<rparr>"

definition pool :: "(bucket \<times> drive_account) list \<Rightarrow> metadata_file \<Rightarrow> world" where
  "pool accounts doc =
     \<lparr>token_dir = map fst accounts,
      service = (\<lambda>b. case map_of accounts b of Some a \<Rightarrow> a | None \<Rightarrow> fresh_account 0 0),
      metadata_doc = doc, save_dir = Map.empty\<rparr>"

text \<open>Ten backends with one free byte each, named \<open>1\<close> to \<open>10\<close>.\<close>

definition ten_pool :: world where
  "ten_pool = pool (map (\<lambda>n. (str_nat n, fresh_account 1 0)) [1..<11]) Missing"

text \<open>
  Three backends reporting 10, 5 and 10 free bytes, where \<open>B\<close> has filled up since (or
  beside) the report and accepts nothing.
\<close>

definition stale_pool :: world where
  "stale_pool =
     pool [(''A'', fresh_account 10 0), (''B'', (fresh_account 5 0)\<lparr>room := 0\<rparr>),
           (''C'', fresh_account 10 0)] Missing"

text \<open>The scenario of the specification, with bytes for megabytes.\<close>

definition two_pool :: world where
  "two_pool = pool [(''A'', fresh_account 10 0), (''B'', fresh_account 5 0)] Missing"


text \<open>The pool of the scenario with a \<^verbatim>\<open>metadata.json\<close> whose bytes are not valid text.\<close>

definition garbled_pool :: world where
  "garbled_pool = pool [(''A'', fresh_account 10 0), (''B'', fresh_account 5 0)] Undecodable"

text \<open>\<open>A\<close> has 10 free bytes; \<open>B\<close> is over its quota by 5 bytes.\<close>

definition over_quota_pool :: world where
  "over_quota_pool = pool [(''A'', fresh_account 10 0), (''B'', fresh_account 15 20)] Missing"

text \<open>The remote object a chunk record points to: its name and contents, if it exists.\<close>

definition fetch :: "world \<Rightarrow> chunk_record \<Rightarrow> (string \<times> bytes) option" where
  "fetch w c =
     (let objs = objects (service w (bucket c))
      in if file_id c < length objs then Some (objs ! file_id c) else None)"

text \<open>One backend with 20 free bytes and an empty metadata directory.\<close>

definition one_pool :: world where
  "one_pool = pool [(''A'', fresh_account 20 0)] (Json_list [])"

section \<open>Properties\<close>

subsection \<open>The capacity scan\<close>

lemma scan_storage_eq:
  "scan_storage w bs (t, fs) =
     (t + sum_list (map (free_bytes w) bs),
      fs @ map (\<lambda>b. (free_bytes w b, b)) (filter (\<lambda>b. 0 < free_bytes w b) bs))"
  by (induction bs arbitrary: t fs) (auto simp: free_bytes_def Let_def split: prod.splits)

lemma scan_storage_token_dir:
  "scan_storage w (token_dir w) (0, []) = (total_free_bytes w, candidates w)"
  by (simp add: scan_storage_eq total_free_bytes_def candidates_def)

lemma upload_file_not_enough:
  "total_free_bytes w < int (length content) \<Longrightarrow>
   upload_file content fname w = (Inl Not_enough_space, w)"
  by (simp add: upload_file_def scan_storage_token_dir)

lemma upload_file_enough:
  "\<not> total_free_bytes w < int (length content) \<Longrightarrow>
   upload_file content fname w =
     (case sort_key (\<lambda>x. - fst x) (candidates w) of
        [] \<Rightarrow> (Inl Index_error, w)
      | (best_free, best_bucket) # rest \<Rightarrow>
          if best_free \<ge> int (length content) then
            (case create_object best_bucket fname content w of
               (Inl e, w') \<Rightarrow> (Inl (Http_error e), w')
             | (Inr fid, w') \<Rightarrow>
                 update_metadata
                   \<lparr>file_name = fname,
                    chunks = [\<lparr>chunk_name = fname, file_id = fid, bucket = best_bucket\<rparr>]\<rparr> w')
          else
            (case chunk_loop fname content ((best_free, best_bucket) # rest) 0 0 [] w of
               (Inl e, w') \<Rightarrow> (Inl e, w')
             | (Inr cs, w') \<Rightarrow>
                 update_metadata \<lparr>file_name = fname, chunks = cs\<rparr> w'))"
  by (simp add: upload_file_def scan_storage_token_dir)

subsection \<open>Pre-flight check\<close>

text \<open>
  C3. If the free bytes of all backends sum to less than the file size, \<open>upload_file\<close> ends
  with \<open>Not_enough_space\<close> (the program's "Not enough space." return) and the whole world is
  as before: no remote object is created and the metadata document is unchanged.
\<close>

theorem preflight_guarantee:
  assumes "total_free_bytes w < int (length content)"
  shows "upload_file content fname w = (Inl Not_enough_space, w)"
  using assms by (rule upload_file_not_enough)

theorem preflight_guarantee_witness:
  "total_free_bytes (pool [(''1'', fresh_account 10 4), (''2'', fresh_account 5 0)] Missing)
     < int (length ''0123456789ab'')
   \<and> upload_file ''0123456789ab'' ''f'' (pool [(''1'', fresh_account 10 4), (''2'', fresh_account 5 0)] Missing)
     = (Inl Not_enough_space, pool [(''1'', fresh_account 10 4), (''2'', fresh_account 5 0)] Missing)"
proof -
  have h: "total_free_bytes (pool [(''1'', fresh_account 10 4), (''2'', fresh_account 5 0)] Missing)
     < int (length ''0123456789ab'')"
    by (simp add: total_free_bytes_def free_bytes_def check_storage_def pool_def fresh_account_def)
  from h preflight_guarantee [OF h] show ?thesis by blast
qed

subsection \<open>Zero-byte file on a pool without free space\<close>

text \<open>
  C10, as stated, at a pool whose only backend is over quota (limit 10, usage 15, so free
  space -5) and a zero-byte file: every backend reports free space \<open>\<le> 0\<close>, yet the
  pre-flight check fails, and the upload ends with \<open>Not_enough_space\<close>, not \<open>Index_error\<close>.
\<close>

theorem zero_byte_over_quota_counterexample:
  "free_bytes (pool [(''1'', fresh_account 10 15)] Missing) ''1'' = - 5
   \<and> token_dir (pool [(''1'', fresh_account 10 15)] Missing) = [''1'']
   \<and> fst (upload_file [] ''f'' (pool [(''1'', fresh_account 10 15)] Missing)) = Inl Not_enough_space
   \<and> fst (upload_file [] ''f'' (pool [(''1'', fresh_account 10 15)] Missing)) \<noteq> Inl Index_error"
  by (simp add: upload_file_def free_bytes_def check_storage_def pool_def fresh_account_def)

text \<open>
  C10, amended. With a zero-byte file, when every backend reports free space \<open>\<le> 0\<close> and
  the reports sum to 0 (each is exactly 0, or there is no backend), the pre-flight check
  passes, the candidate list is empty, and \<open>upload_file\<close> raises \<open>Index_error\<close> at the
  selection of the best bucket, before anything is written.
\<close>

theorem zero_byte_empty_pool_index_error:
  assumes "\<forall>b \<in> set (token_dir w). free_bytes w b \<le> 0"
    and "total_free_bytes w = 0"
  shows "\<not> total_free_bytes w < int (length ([] :: bytes))
         \<and> candidates w = []
         \<and> upload_file [] fname w = (Inl Index_error, w)"
proof -
  have c: "candidates w = []"
    using assms(1) by (auto simp: candidates_def filter_empty_conv)
  have p: "\<not> total_free_bytes w < int (length ([] :: bytes))"
    using assms(2) by simp
  show ?thesis
    using c p upload_file_enough [OF p, of fname] by simp
qed

theorem zero_byte_empty_pool_index_error_witness:
  "token_dir (pool [(''1'', fresh_account 15 15), (''2'', fresh_account 0 0)] Missing) = [''1'', ''2'']
   \<and> free_bytes (pool [(''1'', fresh_account 15 15), (''2'', fresh_account 0 0)] Missing) ''1'' \<le> 0
   \<and> free_bytes (pool [(''1'', fresh_account 15 15), (''2'', fresh_account 0 0)] Missing) ''2'' \<le> 0
   \<and> total_free_bytes (pool [(''1'', fresh_account 15 15), (''2'', fresh_account 0 0)] Missing) = 0
   \<and> upload_file [] ''f'' (pool [(''1'', fresh_account 15 15), (''2'', fresh_account 0 0)] Missing)
       = (Inl Index_error, pool [(''1'', fresh_account 15 15), (''2'', fresh_account 0 0)] Missing)"
proof -
  let ?w = "pool [(''1'', fresh_account 15 15), (''2'', fresh_account 0 0)] Missing"
  have h0: "token_dir ?w = [''1'', ''2'']"
    by (simp add: pool_def)
  have h1: "free_bytes ?w ''1'' \<le> 0" "free_bytes ?w ''2'' \<le> 0"
    by (simp_all add: free_bytes_def check_storage_def pool_def fresh_account_def)
  have h2: "total_free_bytes ?w = 0"
    by (simp add: total_free_bytes_def free_bytes_def check_storage_def pool_def fresh_account_def)
  have h3: "\<forall>b \<in> set (token_dir ?w). free_bytes ?w b \<le> 0"
    using h1 by (simp add: h0)
  from h0 h1 h2 zero_byte_empty_pool_index_error [OF h3 h2, of "''f''"] show ?thesis by blast
qed

subsection \<open>Reassembly order\<close>

text \<open>
  C2 at a file of ten chunks. The upload of the ten bytes \<open>0123456789\<close> to ten backends
  with one free byte each succeeds and records \<open>f_part1\<close>, ..., \<open>f_part10\<close> in creation
  order. The download sorts the chunk paths as strings, so \<open>f_part10\<close> comes second, and
  the reassembled file is \<open>0912345678\<close>: the chunks are concatenated in lexicographic
  order of their names, not in the order of their indices.
\<close>

theorem ten_chunks_reassembled_lexicographically:
  "fst (upload_file ''0123456789'' ''f'' ten_pool) = Inr ()
   \<and> map chunk_name (chunks (last (directory (metadata_doc (snd (upload_file ''0123456789'' ''f'' ten_pool))))))
       = [''f_part1'', ''f_part2'', ''f_part3'', ''f_part4'', ''f_part5'', ''f_part6'', ''f_part7'',
          ''f_part8'', ''f_part9'', ''f_part10'']
   \<and> fst (download_from_all_buckets ''f'' (snd (upload_file ''0123456789'' ''f'' ten_pool))) = Inr ()
   \<and> save_dir (snd (download_from_all_buckets ''f'' (snd (upload_file ''0123456789'' ''f'' ten_pool)))) ''f''
       = Some ''0912345678''"
  by code_simp

subsection \<open>Quota rejection during the chunked upload\<close>

text \<open>
  C4 at a pool where \<open>A\<close> and \<open>C\<close> hold 10 free bytes each and \<open>B\<close>, reported with 5, is
  in fact full. For a 12-byte file the chunked path picks \<open>B\<close> first; its rejection with
  \<open>storageQuotaExceeded\<close> ends the upload with \<open>Runtime_error\<close>. Nothing is retried on
  \<open>A\<close> or \<open>C\<close>, although they jointly hold the 12 bytes: no object is written and no
  record is appended.
\<close>

theorem quota_rejection_aborts_upload:
  "map (free_bytes stale_pool) (token_dir stale_pool) = [10, 5, 10]
   \<and> room (service stale_pool ''B'') = 0
   \<and> fst (upload_file ''0123456789ab'' ''f'' stale_pool) = Inl Runtime_error
   \<and> map (\<lambda>b. objects (service (snd (upload_file ''0123456789ab'' ''f'' stale_pool)) b)) [''A'', ''B'', ''C'']
       = [[], [], []]
   \<and> metadata_doc (snd (upload_file ''0123456789ab'' ''f'' stale_pool)) = Missing"
  by code_simp

subsection \<open>The fallback scan\<close>

text \<open>
  C9. A 12-byte file is uploaded to \<open>two_pool\<close>: chunk 1 (5 bytes) lies on \<open>B\<close>, chunk 2
  (7 bytes) on \<open>A\<close>. With the metadata document lost, the scan visits \<open>A\<close> first, finds
  \<open>f_part2\<close> there, merges the parts of that one bucket and returns: the file it writes is
  chunk 2 alone.
\<close>

theorem fallback_scan_stops_at_first_bucket:
  "fst (upload_file ''0123456789ab'' ''f'' two_pool) = Inr ()
   \<and> objects (service (snd (upload_file ''0123456789ab'' ''f'' two_pool)) ''A'') = [(''f_part2'', ''56789ab'')]
   \<and> objects (service (snd (upload_file ''0123456789ab'' ''f'' two_pool)) ''B'') = [(''f_part1'', ''01234'')]
   \<and> fst (download_from_all_buckets ''f''
             ((snd (upload_file ''0123456789ab'' ''f'' two_pool))\<lparr>metadata_doc := Missing\<rparr>)) = Inr ()
   \<and> save_dir (snd (download_from_all_buckets ''f''
             ((snd (upload_file ''0123456789ab'' ''f'' two_pool))\<lparr>metadata_doc := Missing\<rparr>))) ''f''
       = Some ''56789ab''"
  by code_simp

subsection \<open>The upload does not read the metadata document before its last step\<close>

lemma create_object_doc:
  "create_object b n c (w\<lparr>metadata_doc := d\<rparr>) =
     (case create_object b n c w of (r, w') \<Rightarrow> (r, w'\<lparr>metadata_doc := d\<rparr>))"
  by (simp add: create_object_def Let_def)

lemma chunk_loop_doc:
  "chunk_loop fname content fs offset i cs (w\<lparr>metadata_doc := d\<rparr>) =
     (case chunk_loop fname content fs offset i cs w of (r, w') \<Rightarrow> (r, w'\<lparr>metadata_doc := d\<rparr>))"
proof (induction fname content fs offset i cs w rule: chunk_loop.induct)
  case (1 fname content free_space offset chunk_index cs w)
  show ?case
    apply (subst chunk_loop.simps)
    apply (subst (2) chunk_loop.simps)
    apply (simp add: Let_def upload_chunk_def create_object_doc split: option.splits prod.splits sum.splits http_fault.splits)
    using 1 
    apply (auto simp: Let_def upload_chunk_def split: option.splits prod.splits sum.splits http_fault.splits)
    done
qed

lemma free_bytes_doc [simp]: "free_bytes (w\<lparr>metadata_doc := d\<rparr>) = free_bytes w"
  by (simp add: free_bytes_def fun_eq_iff)

lemma total_free_bytes_doc [simp]: "total_free_bytes (w\<lparr>metadata_doc := d\<rparr>) = total_free_bytes w"
  by (simp add: total_free_bytes_def)

lemma candidates_doc [simp]: "candidates (w\<lparr>metadata_doc := d\<rparr>) = candidates w"
  by (simp add: candidates_def)

lemma upload_file_doc:
  assumes "load_metadata d = load_metadata d'"
  shows "upload_file content fname (w\<lparr>metadata_doc := d\<rparr>) =
     (case upload_file content fname (w\<lparr>metadata_doc := d'\<rparr>) of
        (Inl e, w') \<Rightarrow> (Inl e, w'\<lparr>metadata_doc := d\<rparr>)
      | (Inr u, w') \<Rightarrow> (Inr u, w'))"
proof (cases "total_free_bytes w < int (length content)")
  case True
  then show ?thesis by (simp add: upload_file_not_enough)
next
  case False
  then show ?thesis
    using assms
    by (simp add: upload_file_enough create_object_doc chunk_loop_doc update_metadata_def
        split: list.splits prod.splits sum.splits)
qed

subsection \<open>Corrupt metadata\<close>

text \<open>
  A metadata document that is missing, empty or not valid JSON is loaded as the empty
  sequence. The upload then does what it does on a valid empty directory: if it fails
  there, it fails here in the same way (the document stays as it is); if it succeeds
  there, it succeeds here with the same final state, in which the rewritten document
  holds exactly one record, the new one.
\<close>

lemma caught_corruption_resets_directory:
  assumes "d = Missing \<or> d = Empty_file \<or> d = Invalid_json"
  shows "load_metadata d = Inr []
         \<and> (case upload_file content fname (w\<lparr>metadata_doc := Json_list []\<rparr>) of
               (Inl e, w') \<Rightarrow>
                 upload_file content fname (w\<lparr>metadata_doc := d\<rparr>) = (Inl e, w'\<lparr>metadata_doc := d\<rparr>)
             | (Inr u, w') \<Rightarrow>
                 upload_file content fname (w\<lparr>metadata_doc := d\<rparr>) = (Inr (), w')
                 \<and> (\<exists>cs. metadata_doc w' = Json_list [\<lparr>file_name = fname, chunks = cs\<rparr>]))"
proof -
  have l: "load_metadata d = load_metadata (Json_list [])"
    using assms by (auto simp: load_metadata_def)
  have shape: "\<exists>cs. metadata_doc w' = Json_list [\<lparr>file_name = fname, chunks = cs\<rparr>]"
    if "upload_file content fname (w\<lparr>metadata_doc := Json_list []\<rparr>) = (Inr u, w')" for u w'
  proof (cases "total_free_bytes w < int (length content)")
    case True
    with that show ?thesis by (simp add: upload_file_not_enough)
  next
    case False
    with that show ?thesis
      by (auto simp: upload_file_enough create_object_doc chunk_loop_doc update_metadata_def
          load_metadata_def split: list.splits prod.splits sum.splits if_splits)
  qed
  show ?thesis
    using l shape upload_file_doc [OF l, of content fname w]
    by (auto simp: load_metadata_def split: prod.splits sum.splits)
qed

text \<open>
  C8 at a document that cannot be decoded. The 12-byte file is uploaded to the pool of the
  scenario while \<^verbatim>\<open>metadata.json\<close> holds bytes that are not valid text. Both chunks
  are written to their backends; then reading the document raises
  \<open>Unicode_decode_error\<close>, which leaves \<open>upload_file\<close>: the document is not reset and no
  record of the two chunks is written. With a document that is not valid JSON the same
  upload succeeds.
\<close>

theorem undecodable_metadata_aborts_upload:
  "load_metadata Undecodable = Inl Unicode_decode_error
   \<and> fst (upload_file ''0123456789ab'' ''f'' garbled_pool) = Inl Unicode_decode_error
   \<and> objects (service (snd (upload_file ''0123456789ab'' ''f'' garbled_pool)) ''B'')
       = [(''f_part1'', ''01234'')]
   \<and> objects (service (snd (upload_file ''0123456789ab'' ''f'' garbled_pool)) ''A'')
       = [(''f_part2'', ''56789ab'')]
   \<and> metadata_doc (snd (upload_file ''0123456789ab'' ''f'' garbled_pool)) = Undecodable
   \<and> fst (upload_file ''0123456789ab'' ''f'' (garbled_pool\<lparr>metadata_doc := Invalid_json\<rparr>)) = Inr ()
   \<and> metadata_doc (snd (upload_file ''0123456789ab'' ''f'' (garbled_pool\<lparr>metadata_doc := Invalid_json\<rparr>)))
       = Json_list [\<lparr>file_name = ''f'',
                      chunks = [\<lparr>chunk_name = ''f_part1'', file_id = 0, bucket = ''B''\<rparr>,
                                \<lparr>chunk_name = ''f_part2'', file_id = 0, bucket = ''A''\<rparr>]\<rparr>]"
  by code_simp

subsection \<open>Whole-file fast path\<close>

lemma sort_desc_head:
  fixes xs :: "(int \<times> 'b) list"
  assumes "sort_key (\<lambda>x. - fst x) xs = (f, b) # rest"
  shows "(f, b) \<in> set xs \<and> (\<forall>y \<in> set xs. fst y \<le> f)"
proof -
  have s: "set ((f, b) # rest) = set xs"
    using assms by (metis set_sort)
  have "sorted (map (\<lambda>x. - fst x) ((f, b) # rest))"
    using assms by (metis sorted_sort_key)
  then have "\<forall>y \<in> set rest. - f \<le> - fst y"
    by simp
  then have "\<forall>y \<in> set rest. fst y \<le> f"
    by simp
  then have "\<forall>y \<in> set ((f, b) # rest). fst y \<le> f"
    by simp
  with s show ?thesis by (metis list.set_intros(1))
qed

lemma candidates_set:
  "(f, b) \<in> set (candidates w) \<longleftrightarrow> b \<in> set (token_dir w) \<and> f = free_bytes w b \<and> 0 < f"
  by (auto simp: candidates_def)

text \<open>
  C7, as stated, fails at two inputs. (1) \<open>A\<close> holds 10 free bytes and fits an 8-byte
  file, but \<open>B\<close> is over quota by 5, so the total is 5 and the upload ends at the
  pre-flight check with nothing written. (2) A zero-byte file and one backend with 0 free
  bytes: the backend "fits" the file, but it is no candidate, and the upload raises
  \<open>Index_error\<close>.
\<close>

theorem fast_path_counterexample:
  "int (length ''01234567'') \<le> free_bytes over_quota_pool ''A''
   \<and> ''A'' \<in> set (token_dir over_quota_pool)
   \<and> fst (upload_file ''01234567'' ''f'' over_quota_pool) = Inl Not_enough_space
   \<and> objects (service (snd (upload_file ''01234567'' ''f'' over_quota_pool)) ''A'') = []
   \<and> metadata_doc (snd (upload_file ''01234567'' ''f'' over_quota_pool)) = Missing
   \<and> int (length ([] :: bytes)) \<le> free_bytes (pool [(''A'', fresh_account 0 0)] Missing) ''A''
   \<and> ''A'' \<in> set (token_dir (pool [(''A'', fresh_account 0 0)] Missing))
   \<and> fst (upload_file [] ''f'' (pool [(''A'', fresh_account 0 0)] Missing)) = Inl Index_error
   \<and> metadata_doc (snd (upload_file [] ''f'' (pool [(''A'', fresh_account 0 0)] Missing))) = Missing"
  by code_simp

text \<open>
  C7, amended. For every upload that passes the pre-flight check and for which some
  backend has positive free space of at least the file size, \<open>upload_file\<close> selects a
  backend \<open>best\<close> whose free space is largest among all backends and sends the whole
  file there under the file's name. If that backend rejects the write, the upload ends
  with the \<open>Http_error\<close> and nothing has changed. Otherwise the file is one new remote
  object on \<open>best\<close> and no other account changes; the upload then succeeds, and the record
  appended to the metadata document has exactly one chunk, whose \<open>chunk_name\<close> is the
  file name. The one exception is a metadata document that cannot be decoded, where the
  \<open>Unicode_decode_error\<close> leaves \<open>upload_file\<close> after the write.
\<close>

theorem whole_file_fast_path:
  assumes pre: "int (length content) \<le> total_free_bytes w"
    and fit: "\<exists>b \<in> set (token_dir w). 0 < free_bytes w b \<and> int (length content) \<le> free_bytes w b"
  shows "\<exists>best \<in> set (token_dir w).
            (\<forall>b \<in> set (token_dir w). free_bytes w b \<le> free_bytes w best)
            \<and> (if broken (service w best) \<or> room (service w best) < length content
               then \<exists>e. upload_file content fname w = (Inl (Http_error e), w)
               else \<exists>w'. objects (service w' best) = objects (service w best) @ [(fname, content)]
                      \<and> (\<forall>b. b \<noteq> best \<longrightarrow> service w' b = service w b)
                      \<and> (if metadata_doc w = Undecodable
                         then upload_file content fname w = (Inl Unicode_decode_error, w')
                              \<and> metadata_doc w' = Undecodable
                         else upload_file content fname w = (Inr (), w')
                              \<and> metadata_doc w' =
                                  Json_list (directory (metadata_doc w) @
                                    [\<lparr>file_name = fname,
                                      chunks = [\<lparr>chunk_name = fname,
                                                 file_id = length (objects (service w best)),
                                                 bucket = best\<rparr>]\<rparr>])))"
proof -
  from fit obtain b0 where b0: "b0 \<in> set (token_dir w)" "0 < free_bytes w b0"
    "int (length content) \<le> free_bytes w b0" by blast
  then have mem: "(free_bytes w b0, b0) \<in> set (candidates w)"
    by (simp add: candidates_set)
  then have "sort_key (\<lambda>x. - fst x) (candidates w) \<noteq> []"
    by (metis empty_iff list.set(1) set_sort)
  then obtain f best rest where hd: "sort_key (\<lambda>x. - fst x) (candidates w) = (f, best) # rest"
    by (cases "sort_key (\<lambda>x. - fst x) (candidates w)") auto
  from sort_desc_head [OF hd] have in_c: "(f, best) \<in> set (candidates w)"
    and mx: "\<forall>y \<in> set (candidates w). fst y \<le> f" by auto
  from in_c have best: "best \<in> set (token_dir w)" "f = free_bytes w best" "0 < f"
    by (simp_all add: candidates_set)
  have largest: "free_bytes w b \<le> free_bytes w best" if "b \<in> set (token_dir w)" for b
  proof (cases "0 < free_bytes w b")
    case True
    with that have "(free_bytes w b, b) \<in> set (candidates w)" by (simp add: candidates_set)
    with mx best show ?thesis by fastforce
  next
    case False
    with best show ?thesis by simp
  qed
  have fits: "int (length content) \<le> f"
    using mx mem b0 by fastforce
  have up: "upload_file content fname w =
      (case create_object best fname content w of
         (Inl e, w') \<Rightarrow> (Inl (Http_error e), w')
       | (Inr fid, w') \<Rightarrow>
           update_metadata
             \<lparr>file_name = fname,
              chunks = [\<lparr>chunk_name = fname, file_id = fid, bucket = best\<rparr>]\<rparr> w')"
    using pre fits by (simp add: upload_file_enough hd)
  have "if broken (service w best) \<or> room (service w best) < length content
        then \<exists>e. upload_file content fname w = (Inl (Http_error e), w)
        else \<exists>w'. objects (service w' best) = objects (service w best) @ [(fname, content)]
               \<and> (\<forall>b. b \<noteq> best \<longrightarrow> service w' b = service w b)
               \<and> (if metadata_doc w = Undecodable
                  then upload_file content fname w = (Inl Unicode_decode_error, w')
                       \<and> metadata_doc w' = Undecodable
                  else upload_file content fname w = (Inr (), w')
                       \<and> metadata_doc w' =
                           Json_list (directory (metadata_doc w) @
                             [\<lparr>file_name = fname,
                               chunks = [\<lparr>chunk_name = fname,
                                          file_id = length (objects (service w best)),
                                          bucket = best\<rparr>]\<rparr>]))"
    unfolding up
    by (cases "metadata_doc w")
      (simp_all add: create_object_def Let_def update_metadata_def load_metadata_def directory_def)
  with best(1) largest show ?thesis by blast
qed

theorem whole_file_fast_path_witness:
  "int (length ''01234567'') \<le> total_free_bytes two_pool
   \<and> ''A'' \<in> set (token_dir two_pool)
   \<and> 0 < free_bytes two_pool ''A''
   \<and> int (length ''01234567'') \<le> free_bytes two_pool ''A''
   \<and> (\<exists>best \<in> set (token_dir two_pool).
      (\<forall>b \<in> set (token_dir two_pool). free_bytes two_pool b \<le> free_bytes two_pool best)
      \<and> (if broken (service two_pool best) \<or> room (service two_pool best) < length ''01234567''
         then \<exists>e. upload_file ''01234567'' ''f'' two_pool = (Inl (Http_error e), two_pool)
         else \<exists>w'. objects (service w' best) = objects (service two_pool best) @ [(''f'', ''01234567'')]
                \<and> (\<forall>b. b \<noteq> best \<longrightarrow> service w' b = service two_pool b)
                \<and> (if metadata_doc two_pool = Undecodable
                   then upload_file ''01234567'' ''f'' two_pool = (Inl Unicode_decode_error, w')
                        \<and> metadata_doc w' = Undecodable
                   else upload_file ''01234567'' ''f'' two_pool = (Inr (), w')
                        \<and> metadata_doc w' =
                            Json_list (directory (metadata_doc two_pool) @
                              [\<lparr>file_name = ''f'',
                                chunks = [\<lparr>chunk_name = ''f'',
                                           file_id = length (objects (service two_pool best)),
                                           bucket = best\<rparr>]\<rparr>]))))
   \<and> fst (upload_file ''01234567'' ''f'' two_pool) = Inr ()
   \<and> metadata_doc (snd (upload_file ''01234567'' ''f'' two_pool))
       = Json_list [\<lparr>file_name = ''f'', chunks = [\<lparr>chunk_name = ''f'', file_id = 0, bucket = ''A''\<rparr>]\<rparr>]"
proof -
  have h1: "int (length ''01234567'') \<le> total_free_bytes two_pool"
    by code_simp
  have h2: "''A'' \<in> set (token_dir two_pool)" "0 < free_bytes two_pool ''A''"
    "int (length ''01234567'') \<le> free_bytes two_pool ''A''"
    by code_simp+
  then have h3: "\<exists>b \<in> set (token_dir two_pool).
      0 < free_bytes two_pool b \<and> int (length ''01234567'') \<le> free_bytes two_pool b"
    by blast
  have e: "fst (upload_file ''01234567'' ''f'' two_pool) = Inr ()"
    "metadata_doc (snd (upload_file ''01234567'' ''f'' two_pool))
       = Json_list [\<lparr>file_name = ''f'', chunks = [\<lparr>chunk_name = ''f'', file_id = 0, bucket = ''A''\<rparr>]\<rparr>]"
    by code_simp+
  from h1 h2 e whole_file_fast_path [OF h1 h3, of "''f''"] show ?thesis
    by blast
qed

subsection \<open>One iteration of the chunk loop\<close>

lemma first_positive_Some:
  "first_positive fs k = Some (j, f, b) \<Longrightarrow>
     k \<le> j \<and> j - k < length fs \<and> fs ! (j - k) = (f, b) \<and> 0 < f \<and> (\<forall>m < j - k. fst (fs ! m) \<le> 0)"
proof (induction fs k rule: first_positive.induct)
  case (1 i)
  then show ?case by simp
next
  case (2 bucket_free bucket_id rest i)
  show ?case
  proof (cases "bucket_free > 0")
    case True
    with 2 show ?thesis by auto
  next
    case False
    with 2 have ih: "Suc i \<le> j \<and> j - Suc i < length rest \<and> rest ! (j - Suc i) = (f, b) \<and> 0 < f
        \<and> (\<forall>m < j - Suc i. fst (rest ! m) \<le> 0)"
      by simp
    then have eq: "j - i = Suc (j - Suc i)" by arith
    have "\<forall>m < j - i. fst (((bucket_free, bucket_id) # rest) ! m) \<le> 0"
    proof (intro allI impI)
      fix m assume "m < j - i"
      then show "fst (((bucket_free, bucket_id) # rest) ! m) \<le> 0"
        using False ih eq by (cases m) auto
    qed
    with ih eq show ?thesis by auto
  qed
qed

lemma first_positive_None:
  "first_positive fs k = None \<longleftrightarrow> (\<forall>e \<in> set fs. fst e \<le> 0)"
  by (induction fs k rule: first_positive.induct) auto



lemma chunk_loop_unfold:
  assumes "offset < length content"
    and "first_positive (sort_key fst table) 0 = Some (i, f, b)"
    and "b \<noteq> []"
    and "upload_chunk b (take (nat (min f (int (length content - offset)))) (drop offset content))
           fname idx w = (Inr fid, w')"
  shows "chunk_loop fname content table offset idx cs w =
           chunk_loop fname content
             ((sort_key fst table)[i := (f - int (nat (min f (int (length content - offset)))), b)])
             (offset + nat (min f (int (length content - offset)))) (idx + 1)
             (cs @ [\<lparr>chunk_name = part_name fname idx, file_id = fid, bucket = b\<rparr>]) w'"
  apply (subst chunk_loop.simps)
  apply (simp only: assms if_True if_False Let_def option.case prod.case sum.case)
  done


lemma chunk_loop_done:
  "\<not> offset < length content \<Longrightarrow> chunk_loop fname content table offset idx cs w = (Inr cs, w)"
  by (subst chunk_loop.simps) simp



subsection \<open>Drain-smallest-first placement\<close>



subsection \<open>Part names and their order as strings\<close>

lemma append_le_append:
  fixes ys :: "'a::linorder list"
  shows "xs @ ys \<le> xs @ zs \<longleftrightarrow> ys \<le> zs"
  by (induction xs) auto

lemma digit_char_code:
  assumes "d < 10"
  shows "(of_char (digit_char d) :: nat) = 48 + d"
proof -
  from assms have "d \<in> {0, 1, 2, 3, 4, 5, 6, 7, 8, 9}" by auto
  then show ?thesis
    by (elim insertE emptyE) (simp_all add: digit_char_def)
qed

lemma digit_char_mono:
  assumes "a \<le> b" "b < 10"
  shows "digit_char a \<le> digit_char b"
proof -
  have "(of_char (digit_char a) :: nat) \<le> of_char (digit_char b)"
    using assms digit_char_code [of a] digit_char_code [of b] by simp
  then show ?thesis
    unfolding less_eq_char_def .
qed

lemma digit_char_inj:
  assumes "digit_char a = digit_char b" "a < 10" "b < 10"
  shows "a = b"
proof -
  from assms(1) have "(of_char (digit_char a) :: nat) = of_char (digit_char b)"
    by (rule arg_cong)
  then show ?thesis
    unfolding digit_char_code [OF assms(2)] digit_char_code [OF assms(3)] by simp
qed

lemma part_name_digit:
  "k < 9 \<Longrightarrow> part_name fname k = (fname @ ''_part'') @ [digit_char (Suc k)]"
  by (simp add: part_name_def str_nat.simps)

lemma part_name_neq: "part_name fname k \<noteq> fname"
  by (simp add: part_name_def)

lemma part_names_sorted:
  assumes "n \<le> 9"
  shows "sorted (map (part_name fname) [k..<n])"
proof -
  have "part_name fname i \<le> part_name fname j" if "i \<le> j" "j < n" for i j
  proof -
    from that assms have ij: "i < 9" "j < 9" by auto
    with that have d: "digit_char (Suc i) \<le> digit_char (Suc j)"
      by (intro digit_char_mono) auto
    have "[digit_char (Suc i)] \<le> [digit_char (Suc j)]"
      using d by (cases "digit_char (Suc i) = digit_char (Suc j)") auto
    then have "(fname @ ''_part'') @ [digit_char (Suc i)] \<le> (fname @ ''_part'') @ [digit_char (Suc j)]"
      by (simp only: append_le_append)
    then show ?thesis
      by (simp only: part_name_digit [OF ij(1)] part_name_digit [OF ij(2)])
  qed
  then show ?thesis
    by (auto simp: sorted_iff_nth_mono)
qed

lemma part_names_distinct:
  assumes "n \<le> 9"
  shows "distinct (map (part_name fname) [k..<n])"
proof -
  have "inj_on (part_name fname) (set [k..<n])"
  proof (rule inj_onI)
    fix i j assume "i \<in> set [k..<n]" "j \<in> set [k..<n]" "part_name fname i = part_name fname j"
    with assms have "i < 9" "j < 9" "digit_char (Suc i) = digit_char (Suc j)"
      by (auto simp: part_name_digit)
    then show "i = j"
      using digit_char_inj [of "Suc i" "Suc j"] by simp
  qed
  then show ?thesis by (simp add: distinct_map)
qed

subsection \<open>The chunks a completed loop has stored\<close>

lemma create_object_Inl:
  "create_object b name content w = (Inl e, w') \<Longrightarrow> w' = w"
  by (auto simp: create_object_def Let_def split: if_splits)

lemma create_object_Inr:
  assumes "create_object b name content w = (Inr fid, w')"
  shows "fid = length (objects (service w b))"
    and "objects (service w' b) = objects (service w b) @ [(name, content)]"
    and "b' \<noteq> b \<Longrightarrow> service w' b' = service w b'"
    and "metadata_doc w' = metadata_doc w" and "save_dir w' = save_dir w"
    and "token_dir w' = token_dir w"
  using assms by (auto simp: create_object_def Let_def split: if_splits)

lemma create_object_fetch:
  assumes "create_object b name content w = (r, w')" and "fetch w c = Some x"
  shows "fetch w' c = Some x"
proof (cases r)
  case (Inl e)
  with assms create_object_Inl show ?thesis by metis
next
  case (Inr fid)
  show ?thesis
  proof (cases "bucket c = b")
    case True
    with assms(2) create_object_Inr(2) [OF assms(1) [unfolded Inr]] show ?thesis
      by (auto simp: fetch_def Let_def nth_append split: if_splits)
  next
    case False
    with assms(2) create_object_Inr(3) [OF assms(1) [unfolded Inr]] show ?thesis
      by (simp add: fetch_def)
  qed
qed

lemma create_object_fetch_new:
  assumes "create_object b name content w = (Inr fid, w')"
  shows "fetch w' \<lparr>chunk_name = n, file_id = fid, bucket = b\<rparr> = Some (name, content)"
  using create_object_Inr(1,2) [OF assms] by (simp add: fetch_def)

text \<open>What one pass through the loop body can do.\<close>

lemma chunk_loop_cases:
  assumes "chunk_loop fname content table offset idx cs w = (r, w')"
  obtains
    (stop) "r = Inr cs" "w' = w" "\<not> offset < length content"
  | (none) "r = Inr cs" "w' = w" "offset < length content" "first_positive (sort_key fst table) 0 = None"
  | (unnamed) i f where "r = Inr cs" "w' = w" "offset < length content"
      "first_positive (sort_key fst table) 0 = Some (i, f, [])"
  | (fault) i f b e where "offset < length content"
      "first_positive (sort_key fst table) 0 = Some (i, f, b)" "b \<noteq> []"
      "upload_chunk b (take (nat (min f (int (length content - offset)))) (drop offset content))
         fname idx w = (Inl e, w')"
      "\<exists>e'. r = Inl e'"
  | (step) i f b fid w1 where "offset < length content"
      "first_positive (sort_key fst table) 0 = Some (i, f, b)" "b \<noteq> []"
      "upload_chunk b (take (nat (min f (int (length content - offset)))) (drop offset content))
         fname idx w = (Inr fid, w1)"
      "chunk_loop fname content
         ((sort_key fst table)[i := (f - int (nat (min f (int (length content - offset)))), b)])
         (offset + nat (min f (int (length content - offset)))) (idx + 1)
         (cs @ [\<lparr>chunk_name = part_name fname idx, file_id = fid, bucket = b\<rparr>]) w1 = (r, w')"
proof (cases "offset < length content")
  case False
  with assms have "r = Inr cs" "w' = w" by (simp_all add: chunk_loop_done)
  with False show ?thesis using stop by blast
next
  case more: True
  show ?thesis
  proof (cases "first_positive (sort_key fst table) 0")
    case None
    have "chunk_loop fname content table offset idx cs w = (Inr cs, w)"
      by (subst chunk_loop.simps) (simp only: more None if_True Let_def option.case)
    with assms have "r = Inr cs" "w' = w" by simp_all
    then show ?thesis using more None none by blast
  next
    case (Some sel)
    obtain i f b where sel: "sel = (i, f, b)" by (cases sel)
    note Some = Some [unfolded sel]
    show ?thesis
    proof (cases "b = []")
      case True
      have "chunk_loop fname content table offset idx cs w = (Inr cs, w)"
        by (subst chunk_loop.simps) (simp only: more Some True if_True Let_def option.case prod.case simp_thms)
      with assms have "r = Inr cs" "w' = w" by simp_all
      then show ?thesis using more Some [unfolded True] unnamed by blast
    next
      case False
      define chunk where "chunk = take (nat (min f (int (length content - offset)))) (drop offset content)"
      obtain res w1 where up: "upload_chunk b chunk fname idx w = (res, w1)"
        by (cases "upload_chunk b chunk fname idx w")
      show ?thesis
      proof (cases res)
        case (Inl e)
        have "\<exists>e'. chunk_loop fname content table offset idx cs w = (Inl e', w1)"
          by (subst chunk_loop.simps, cases e)
            (simp_all only: more Some False if_True if_False Let_def option.case prod.case
              up [unfolded chunk_def Inl] sum.case http_fault.case, blast+)
        with assms have "\<exists>e'. r = Inl e'" "w1 = w'" by auto
        with more Some False up [unfolded chunk_def Inl] show ?thesis using fault by blast
      next
        case (Inr fid)
        from chunk_loop_unfold [OF more Some False up [unfolded chunk_def Inr], of cs] assms
        show ?thesis
          using more Some False up [unfolded chunk_def Inr] by (metis step)
      qed
    qed
  qed
qed

lemma chunk_size_pos:
  assumes "offset < length content" and "first_positive table 0 = Some (i, f, b)"
  shows "0 < nat (min f (int (length content - offset)))"
    and "nat (min f (int (length content - offset))) \<le> length content - offset"
    and "int (nat (min f (int (length content - offset)))) \<le> f"
  using assms(1) first_positive_Some [OF assms(2)] by auto

lemma sum_list_update_int:
  "i < length xs \<Longrightarrow> sum_list (xs[i := v]) = sum_list xs - xs ! i + (v :: int)"
  by (induction xs arbitrary: i) (auto split: nat.splits)

lemma sum_list_insort_key:
  "sum_list (map f (insort_key g x xs)) = (f x :: int) + sum_list (map f xs)"
  by (induction xs) auto

lemma sum_list_sort_key:
  "sum_list (map f (sort_key g xs)) = (sum_list (map f xs) :: int)"
  by (induction xs) (auto simp: sum_list_insort_key)

lemma chunk_loop_preserves:
  assumes "chunk_loop fname content table offset idx cs w = (r, w')"
  shows "metadata_doc w' = metadata_doc w \<and> save_dir w' = save_dir w \<and> token_dir w' = token_dir w
         \<and> (\<forall>c x. fetch w c = Some x \<longrightarrow> fetch w' c = Some x)"
  using assms
proof (induction "length content - offset" arbitrary: table offset idx cs w rule: less_induct)
  case less
  from less.prems show ?case
  proof (cases rule: chunk_loop_cases)
    case (fault i f b e)
    from create_object_Inl [OF fault(4) [unfolded upload_chunk_def]] show ?thesis by simp
  next
    case (step i f b fid w1)
    note up = step(4) [unfolded upload_chunk_def]
    from chunk_size_pos(1) [OF step(1,2)] step(1)
    have "length content - (offset + nat (min f (int (length content - offset)))) < length content - offset"
      by simp
    from less.hyps [OF this step(5)] create_object_Inr(4,5,6) [OF up] create_object_fetch [OF up]
    show ?thesis by simp
  qed simp_all
qed

text \<open>
  The chunks a completed loop has added: named by consecutive part numbers, each stored
  under its name, and together the rest of the file.
\<close>

lemma chunk_loop_stored:
  assumes "chunk_loop fname content table offset idx cs w = (Inr cs', w')"
    and "\<forall>e \<in> set table. 0 \<le> fst e \<and> snd e \<noteq> []"
    and "int (length content - offset) \<le> sum_list (map fst table)"
  shows "\<exists>new. cs' = cs @ new
           \<and> map chunk_name new = map (\<lambda>k. part_name fname (idx + k)) [0..<length new]
           \<and> (\<forall>c \<in> set new. \<exists>d. fetch w' c = Some (chunk_name c, d))
           \<and> concat (map (\<lambda>c. snd (the (fetch w' c))) new) = drop offset content"
  using assms
proof (induction "length content - offset" arbitrary: table offset idx cs w rule: less_induct)
  case less
  have pos: "\<exists>e \<in> set table. 0 < fst e" if "offset < length content"
  proof (rule ccontr)
    assume "\<not> (\<exists>e \<in> set table. 0 < fst e)"
    then have "\<forall>x \<in> set (map fst table). x \<le> 0" by auto
    then have "sum_list (map fst table) \<le> 0" by (intro sum_list_nonpos) blast
    with less.prems(3) that show False by simp
  qed
  from less.prems(1) show ?case
  proof (cases rule: chunk_loop_cases)
    case stop
    then show ?thesis by simp
  next
    case none
    with pos show ?thesis by (auto simp: first_positive_None not_less)
  next
    case (unnamed i f)
    from first_positive_Some [OF unnamed(4)] have "(f, []) \<in> set (sort_key fst table)"
      by (metis diff_zero nth_mem)
    with less.prems(2) show ?thesis by auto
  next
    case (fault i f b e)
    then show ?thesis by auto
  next
    case (step i f b fid w1)
    define n where "n = nat (min f (int (length content - offset)))"
    define c0 where "c0 = \<lparr>chunk_name = part_name fname idx, file_id = fid, bucket = b\<rparr>"
    note up = step(4) [unfolded upload_chunk_def, folded n_def]
    note rec = step(5) [folded n_def c0_def]
    from chunk_size_pos [OF step(1,2)]
    have n: "0 < n" "n \<le> length content - offset" "int n \<le> f" by (simp_all add: n_def)
    from first_positive_Some [OF step(2)]
    have sel: "i < length (sort_key fst table)" "sort_key fst table ! i = (f, b)" by auto
    have dec: "length content - (offset + n) < length content - offset"
      using n step(1) by simp
    have inv1: "\<forall>e \<in> set ((sort_key fst table)[i := (f - int n, b)]). 0 \<le> fst e \<and> snd e \<noteq> []"
    proof
      fix e assume "e \<in> set ((sort_key fst table)[i := (f - int n, b)])"
      then have "e = (f - int n, b) \<or> e \<in> set (sort_key fst table)"
        using set_update_subset_insert [of "sort_key fst table" i "(f - int n, b)"] by auto
      with less.prems(2) n(3) step(3) show "0 \<le> fst e \<and> snd e \<noteq> []" by auto
    qed
    have "sum_list (map fst ((sort_key fst table)[i := (f - int n, b)]))
        = sum_list (map fst (sort_key fst table)) - int n"
      using sel by (simp add: map_update sum_list_update_int)
    also have "sum_list (map fst (sort_key fst table)) = sum_list (map fst table)"
      by (rule sum_list_sort_key)
    finally have inv2: "int (length content - (offset + n))
        \<le> sum_list (map fst ((sort_key fst table)[i := (f - int n, b)]))"
      using less.prems(3) n(2) by simp
    from less.hyps [OF dec rec inv1 inv2]
    obtain new where new: "cs' = (cs @ [c0]) @ new"
      "map chunk_name new = map (\<lambda>k. part_name fname (idx + 1 + k)) [0..<length new]"
      "\<forall>c \<in> set new. \<exists>d. fetch w' c = Some (chunk_name c, d)"
      "concat (map (\<lambda>c. snd (the (fetch w' c))) new) = drop (offset + n) content"
      by blast
    have "fetch w1 c0 = Some (part_name fname idx, take n (drop offset content))"
      unfolding c0_def by (rule create_object_fetch_new [OF up])
    with chunk_loop_preserves [OF rec]
    have f0: "fetch w' c0 = Some (part_name fname idx, take n (drop offset content))"
      by blast
    have names: "map chunk_name (c0 # new)
        = map (\<lambda>k. part_name fname (idx + k)) [0..<length (c0 # new)]"
      using new(2) by (simp add: c0_def map_upt_Suc del: upt_Suc)
    have stored: "\<forall>c \<in> set (c0 # new). \<exists>d. fetch w' c = Some (chunk_name c, d)"
      using new(3) f0 by (simp add: c0_def)
    have "concat (map (\<lambda>c. snd (the (fetch w' c))) (c0 # new))
        = take n (drop offset content) @ drop (offset + n) content"
      using new(4) f0 by simp
    also have "drop (offset + n) content = drop n (drop offset content)"
      by (simp add: add.commute)
    finally have whole: "concat (map (\<lambda>c. snd (the (fetch w' c))) (c0 # new)) = drop offset content"
      by (simp only: append_take_drop_id)
    from new(1) names stored whole show ?thesis
      by (intro exI [of _ "c0 # new"]) simp
  qed
qed


lemma total_le_candidates:
  "total_free_bytes w \<le> sum_list (map fst (candidates w))"
proof -
  have "sum_list (map f bs) \<le> sum_list (map fst (map (\<lambda>b. (f b, b)) (filter (\<lambda>b. 0 < f b) bs)))"
    for f :: "bucket \<Rightarrow> int" and bs
    by (induction bs) auto
  then show ?thesis
    by (simp only: total_free_bytes_def candidates_def)
qed

subsection \<open>Exhaustion of the pool during the chunked upload\<close>







subsection \<open>Fetching and merging\<close>

lemma fetch_save_dir [simp]: "fetch (w\<lparr>save_dir := s\<rparr>) c = fetch w c"
  by (simp add: fetch_def)

lemma fetch_metadata_doc [simp]: "fetch (w\<lparr>metadata_doc := d\<rparr>) c = fetch w c"
  by (simp add: fetch_def)

lemma download_file_fetch:
  "download_file (bucket c) (file_id c) w =
     (case fetch w c of
        None \<Rightarrow> (None, w)
      | Some (name, content) \<Rightarrow> (Some name, w\<lparr>save_dir := (save_dir w)(name \<mapsto> content)\<rparr>))"
  by (simp add: download_file_def fetch_def Let_def split: prod.splits)

lemma download_chunks_ok:
  assumes "\<forall>c \<in> set cs. \<exists>d. fetch w c = Some (chunk_name c, d)"
  shows "\<exists>w'. download_chunks cs paths w = (Some (paths @ map chunk_name cs), w')
           \<and> (\<forall>x. x \<notin> chunk_name ` set cs \<longrightarrow> save_dir w' x = save_dir w x)
           \<and> (distinct (map chunk_name cs) \<longrightarrow>
                (\<forall>c \<in> set cs. save_dir w' (chunk_name c) = Some (snd (the (fetch w c)))))"
  using assms
proof (induction cs arbitrary: paths w)
  case Nil
  then show ?case by simp
next
  case (Cons c cs)
  from Cons.prems obtain d where d: "fetch w c = Some (chunk_name c, d)" by auto
  define w1 where "w1 = w\<lparr>save_dir := (save_dir w)(chunk_name c \<mapsto> d)\<rparr>"
  have f1: "fetch w1 c' = fetch w c'" for c'
    by (simp add: w1_def)
  have s1: "save_dir w1 = (save_dir w)(chunk_name c \<mapsto> d)"
    by (simp add: w1_def)
  have "\<forall>c' \<in> set cs. \<exists>d. fetch w1 c' = Some (chunk_name c', d)"
    using Cons.prems by (simp add: f1)
  from Cons.IH [OF this, of "paths @ [chunk_name c]"] obtain w' where
    w': "download_chunks cs (paths @ [chunk_name c]) w1 = (Some ((paths @ [chunk_name c]) @ map chunk_name cs), w')"
      "\<forall>x. x \<notin> chunk_name ` set cs \<longrightarrow> save_dir w' x = save_dir w1 x"
      "distinct (map chunk_name cs) \<longrightarrow>
         (\<forall>c' \<in> set cs. save_dir w' (chunk_name c') = Some (snd (the (fetch w1 c'))))"
    by blast
  have first: "download_chunks (c # cs) paths w = download_chunks cs (paths @ [chunk_name c]) w1"
    by (simp add: download_file_fetch d w1_def)
  have a: "download_chunks (c # cs) paths w = (Some (paths @ map chunk_name (c # cs)), w')"
    unfolding first w'(1) by simp
  have b: "\<forall>x. x \<notin> chunk_name ` set (c # cs) \<longrightarrow> save_dir w' x = save_dir w x"
    using w'(2) by (simp add: s1)
  have c: "\<forall>c' \<in> set (c # cs). save_dir w' (chunk_name c') = Some (snd (the (fetch w c')))"
    if dist: "distinct (map chunk_name (c # cs))"
  proof
    fix c' assume "c' \<in> set (c # cs)"
    then consider "c' = c" | "c' \<in> set cs" by auto
    then show "save_dir w' (chunk_name c') = Some (snd (the (fetch w c')))"
    proof cases
      case 1
      from dist have "chunk_name c \<notin> chunk_name ` set cs" by simp
      with w'(2) have "save_dir w' (chunk_name c) = save_dir w1 (chunk_name c)" by blast
      with 1 show ?thesis by (simp add: s1 d)
    next
      case 2
      with dist w'(3) show ?thesis by (simp add: f1)
    qed
  qed
  from a b c show ?case by blast
qed

lemma write_chunks_ok:
  assumes "merged \<notin> set names" and "\<forall>n \<in> set names. fs n \<noteq> None" and "fs merged = Some acc"
  shows "write_chunks names merged fs =
           (Inr (), fs(merged \<mapsto> acc @ concat (map (\<lambda>n. the (fs n)) names)))"
  using assms
proof (induction names arbitrary: fs acc)
  case Nil
  then show ?case by (simp add: fun_upd_idem)
next
  case (Cons n names)
  from Cons.prems obtain chunk where chunk: "fs n = Some chunk" by auto
  define fs1 where "fs1 = fs(merged \<mapsto> acc @ chunk)"
  have same: "fs1 m = fs m" if "m \<in> set names" for m
    using that Cons.prems(1) by (auto simp: fs1_def)
  have "merged \<notin> set names" "\<forall>n \<in> set names. fs1 n \<noteq> None" "fs1 merged = Some (acc @ chunk)"
    using Cons.prems same by (auto simp: fs1_def)
  then have rest: "write_chunks names merged fs1 =
      (Inr (), fs1(merged \<mapsto> (acc @ chunk) @ concat (map (\<lambda>n. the (fs1 n)) names)))"
    by (rule Cons.IH)
  have eq: "map (\<lambda>n. the (fs1 n)) names = map (\<lambda>n. the (fs n)) names"
    using same by (intro map_cong) auto
  have first: "write_chunks (n # names) merged fs = write_chunks names merged fs1"
    using Cons.prems(3) by (simp add: chunk fs1_def)
  have last: "fs1(merged \<mapsto> (acc @ chunk) @ concat (map (\<lambda>n. the (fs n)) names))
      = fs(merged \<mapsto> acc @ concat (map (\<lambda>n. the (fs n)) (n # names)))"
    by (simp add: fs1_def chunk)
  show ?case
    unfolding first rest eq last by (rule refl)
qed

lemma remove_all_ok:
  assumes "distinct names" and "\<forall>n \<in> set names. fs n \<noteq> None"
  shows "\<exists>fs'. remove_all names fs = (Inr (), fs') \<and> (\<forall>x. x \<notin> set names \<longrightarrow> fs' x = fs x)"
  using assms
proof (induction names arbitrary: fs)
  case Nil
  then show ?case by simp
next
  case (Cons n names)
  have "\<exists>fs'. remove_all names (fs(n := None)) = (Inr (), fs')
      \<and> (\<forall>x. x \<notin> set names \<longrightarrow> fs' x = (fs(n := None)) x)"
    using Cons.prems by (intro Cons.IH) auto
  then show ?case
    using Cons.prems by auto
qed

lemma merge_and_remove_ok:
  assumes "sorted paths" and "distinct paths" and "fname \<notin> set paths"
    and "\<forall>p \<in> set paths. save_dir w p \<noteq> None"
  shows "\<exists>w2. merge_and_remove (sort paths) paths fname w = (Inr (), w2)
           \<and> save_dir w2 fname = Some (concat (map (\<lambda>p. the (save_dir w p)) paths))"
proof -
  let ?fs = "(save_dir w)(fname \<mapsto> [])"
  have s: "sort (sort paths) = paths"
    using assms(1) by (simp add: sorted_sort_id)
  have same: "map (\<lambda>p. the (?fs p)) paths = map (\<lambda>p. the (save_dir w p)) paths"
    using assms(3) by (intro map_cong) auto
  have "\<forall>p \<in> set paths. ?fs p \<noteq> None"
    using assms(4) by simp
  moreover have "?fs fname = Some []"
    by simp
  ultimately have "write_chunks paths fname ?fs =
      (Inr (), ?fs(fname \<mapsto> [] @ concat (map (\<lambda>p. the (?fs p)) paths)))"
    by (rule write_chunks_ok [OF assms(3)])
  then have "write_chunks paths fname ?fs =
      (Inr (), (save_dir w)(fname \<mapsto> concat (map (\<lambda>p. the (save_dir w p)) paths)))"
    unfolding same by simp
  then have m: "merge_chunks (sort paths) fname (save_dir w) =
      (Inr (), (save_dir w)(fname \<mapsto> concat (map (\<lambda>p. the (save_dir w p)) paths)))"
    unfolding merge_chunks_def s .
  let ?merged = "(save_dir w)(fname \<mapsto> concat (map (\<lambda>p. the (save_dir w p)) paths))"
  have "\<forall>p \<in> set paths. ?merged p \<noteq> None"
    using assms(4) by auto
  from remove_all_ok [OF assms(2) this] obtain fs' where
    r: "remove_all paths ?merged = (Inr (), fs')" "\<forall>x. x \<notin> set paths \<longrightarrow> fs' x = ?merged x"
    by blast
  from r(2) assms(3) have "fs' fname = Some (concat (map (\<lambda>p. the (save_dir w p)) paths))"
    by simp
  with m r(1) show ?thesis
    by (simp add: merge_and_remove_def)
qed

subsection \<open>Round trip\<close>

lemma find_last:
  assumes "\<forall>x \<in> set xs. \<not> P x" and "P y"
  shows "find P (xs @ [y]) = Some y"
  using assms by (induction xs) auto

text \<open>What a successful upload leaves behind.\<close>

lemma update_metadata_Inr:
  assumes "update_metadata r w' = (Inr (), w1)"
  shows "metadata_doc w1 = Json_list (directory (metadata_doc w') @ [r])"
    and "fetch w1 c = fetch w' c"
  using assms by (auto simp: update_metadata_def directory_def split: sum.splits)

lemma upload_file_record:
  assumes ids: "[] \<notin> set (token_dir w)"
    and up: "upload_file content fname w = (Inr (), w1)"
  shows "\<exists>cs. metadata_doc w1 =
             Json_list (directory (metadata_doc w) @ [\<lparr>file_name = fname, chunks = cs\<rparr>])
           \<and> ((\<exists>c. cs = [c] \<and> chunk_name c = fname \<and> fetch w1 c = Some (fname, content))
              \<or> (map chunk_name cs = map (part_name fname) [0..<length cs]
                  \<and> (\<forall>c \<in> set cs. \<exists>d. fetch w1 c = Some (chunk_name c, d))
                  \<and> concat (map (\<lambda>c. snd (the (fetch w1 c))) cs) = content))"
proof -
  have pre: "\<not> total_free_bytes w < int (length content)"
    using up by (auto simp: upload_file_not_enough)
  note unfold = upload_file_enough [OF pre, of fname]
  show ?thesis
  proof (cases "sort_key (\<lambda>x. - fst x) (candidates w)")
    case Nil
    with up unfold show ?thesis by simp
  next
    case (Cons best rest)
    obtain best_free best_bucket where best: "best = (best_free, best_bucket)" by (cases best)
    note hd = Cons [unfolded best]
    show ?thesis
    proof (cases "int (length content) \<le> best_free")
      case True
      with up unfold hd obtain fid w' where
        cr: "create_object best_bucket fname content w = (Inr fid, w')"
        and w1: "update_metadata
          \<lparr>file_name = fname,
           chunks = [\<lparr>chunk_name = fname, file_id = fid, bucket = best_bucket\<rparr>]\<rparr> w' = (Inr (), w1)"
        by (auto split: prod.splits sum.splits)
      have "fetch w1 \<lparr>chunk_name = fname, file_id = fid, bucket = best_bucket\<rparr> = Some (fname, content)"
        using create_object_fetch_new [OF cr, of fname] by (simp add: update_metadata_Inr(2) [OF w1])
      moreover have "metadata_doc w1 = Json_list (directory (metadata_doc w) @
          [\<lparr>file_name = fname,
            chunks = [\<lparr>chunk_name = fname, file_id = fid, bucket = best_bucket\<rparr>]\<rparr>])"
        using create_object_Inr(4) [OF cr] by (simp add: update_metadata_Inr(1) [OF w1])
      ultimately show ?thesis by auto
    next
      case False
      with up unfold hd obtain cs w' where
        loop: "chunk_loop fname content ((best_free, best_bucket) # rest) 0 0 [] w = (Inr cs, w')"
        and w1: "update_metadata \<lparr>file_name = fname, chunks = cs\<rparr> w' = (Inr (), w1)"
        by (auto split: prod.splits sum.splits)
      have set_eq: "set ((best_free, best_bucket) # rest) = set (candidates w)"
        by (metis hd set_sort)
      have inv1: "\<forall>e \<in> set ((best_free, best_bucket) # rest). 0 \<le> fst e \<and> snd e \<noteq> []"
        unfolding set_eq using ids by (auto simp: candidates_set)
      have "sum_list (map fst ((best_free, best_bucket) # rest)) = sum_list (map fst (candidates w))"
        unfolding hd [symmetric] by (rule sum_list_sort_key)
      with total_le_candidates [of w] pre
      have inv2: "int (length content - 0) \<le> sum_list (map fst ((best_free, best_bucket) # rest))"
        by simp
      from chunk_loop_stored [OF loop inv1 inv2] obtain new where new: "cs = [] @ new"
        "map chunk_name new = map (\<lambda>k. part_name fname (0 + k)) [0..<length new]"
        "\<forall>c \<in> set new. \<exists>d. fetch w' c = Some (chunk_name c, d)"
        "concat (map (\<lambda>c. snd (the (fetch w' c))) new) = drop 0 content"
        by blast
      have f: "fetch w1 c = fetch w' c" for c
        by (rule update_metadata_Inr(2) [OF w1])
      have "metadata_doc w1 = Json_list (directory (metadata_doc w) @ [\<lparr>file_name = fname, chunks = cs\<rparr>])"
        using chunk_loop_preserves [OF loop] by (simp add: update_metadata_Inr(1) [OF w1])
      moreover have "map chunk_name cs = map (part_name fname) [0..<length cs]"
        using new(1,2) by simp
      moreover have "\<forall>c \<in> set cs. \<exists>d. fetch w1 c = Some (chunk_name c, d)"
        using new(1,3) by (simp add: f)
      moreover have "concat (map (\<lambda>c. snd (the (fetch w1 c))) cs) = content"
        using new(1,4) by (simp add: f)
      ultimately show ?thesis by blast
    qed
  qed
qed

lemma download_first_record:
  assumes doc: "metadata_doc w1 = Json_list (old @ [\<lparr>file_name = fname, chunks = cs\<rparr>])"
    and fresh: "\<forall>r \<in> set old. file_name r \<noteq> fname"
  shows "download_from_all_buckets fname w1 =
     (if length cs = 1 \<and> chunk_name (cs ! 0) = fname
      then (Inr (), snd (download_file (bucket (cs ! 0)) (file_id (cs ! 0)) w1))
      else
        (case download_chunks cs [] w1 of
           (None, w') \<Rightarrow> (Inr (), w')
         | (Some chunk_paths, w') \<Rightarrow> merge_and_remove (sort chunk_paths) chunk_paths fname w'))"
proof -
  have "find (\<lambda>md. file_name md = fname) (old @ [\<lparr>file_name = fname, chunks = cs\<rparr>])
      = Some \<lparr>file_name = fname, chunks = cs\<rparr>"
    using fresh by (intro find_last) auto
  then show ?thesis
    by (simp add: download_from_all_buckets_def download_using_metadata_def doc Let_def)
qed

text \<open>
  C1, as stated, fails when the directory already holds a record of the same name. Two
  files are uploaded as \<open>f\<close>, first \<open>old file\<close>, then \<open>new\<close>; both uploads succeed (each
  fits the one backend). The download of \<open>f\<close> takes the first record of that name and
  writes \<open>old file\<close>, not the file just uploaded.
\<close>

theorem same_name_counterexample:
  "fst (upload_file ''old file'' ''f'' one_pool) = Inr ()
   \<and> int (length ''new'') \<le> free_bytes (snd (upload_file ''old file'' ''f'' one_pool)) ''A''
   \<and> fst (upload_file ''new'' ''f'' (snd (upload_file ''old file'' ''f'' one_pool))) = Inr ()
   \<and> fst (download_from_all_buckets ''f''
        (snd (upload_file ''new'' ''f'' (snd (upload_file ''old file'' ''f'' one_pool))))) = Inr ()
   \<and> save_dir (snd (download_from_all_buckets ''f''
        (snd (upload_file ''new'' ''f'' (snd (upload_file ''old file'' ''f'' one_pool)))))) ''f''
       = Some ''old file''
   \<and> save_dir (snd (download_from_all_buckets ''f''
        (snd (upload_file ''new'' ''f'' (snd (upload_file ''old file'' ''f'' one_pool)))))) ''f''
       \<noteq> Some ''new''"
  by code_simp

text \<open>
  C1, amended. Let the bucket ids be non-empty strings and let the metadata directory hold
  no record named \<open>fname\<close>. If the upload of a file under that name succeeds and its
  record (the last of the rewritten document) has at most 9 chunks, then the download of
  \<open>fname\<close> succeeds and the file it writes equals the uploaded file byte for byte. This
  covers the whole-file path and the chunked path alike.
\<close>

theorem round_trip:
  assumes ids: "[] \<notin> set (token_dir w)"
    and fresh: "\<forall>r \<in> set (directory (metadata_doc w)). file_name r \<noteq> fname"
    and up: "upload_file content fname w = (Inr (), w1)"
    and few: "length (chunks (last (directory (metadata_doc w1)))) \<le> 9"
  shows "\<exists>w2. download_from_all_buckets fname w1 = (Inr (), w2) \<and> save_dir w2 fname = Some content"
proof -
  from upload_file_record [OF ids up] obtain cs where
    doc: "metadata_doc w1 = Json_list (directory (metadata_doc w) @ [\<lparr>file_name = fname, chunks = cs\<rparr>])"
    and stored: "(\<exists>c. cs = [c] \<and> chunk_name c = fname \<and> fetch w1 c = Some (fname, content))
      \<or> (map chunk_name cs = map (part_name fname) [0..<length cs]
          \<and> (\<forall>c \<in> set cs. \<exists>d. fetch w1 c = Some (chunk_name c, d))
          \<and> concat (map (\<lambda>c. snd (the (fetch w1 c))) cs) = content)"
    by blast
  note down = download_first_record [OF doc fresh]
  from stored show ?thesis
  proof
    assume "\<exists>c. cs = [c] \<and> chunk_name c = fname \<and> fetch w1 c = Some (fname, content)"
    then obtain c where c: "cs = [c]" "chunk_name c = fname" "fetch w1 c = Some (fname, content)"
      by blast
    then show ?thesis
      by (simp add: down download_file_fetch)
  next
    assume chunked: "map chunk_name cs = map (part_name fname) [0..<length cs]
          \<and> (\<forall>c \<in> set cs. \<exists>d. fetch w1 c = Some (chunk_name c, d))
          \<and> concat (map (\<lambda>c. snd (the (fetch w1 c))) cs) = content"
    have n: "length cs \<le> 9"
      using few by (simp add: doc load_metadata_def directory_def)
    define paths where "paths = map chunk_name cs"
    have paths: "paths = map (part_name fname) [0..<length cs]"
      using chunked by (simp add: paths_def)
    have sorted: "sorted paths" and dist: "distinct paths" and other: "fname \<notin> set paths"
      unfolding paths using n
      by (auto simp: part_names_sorted part_names_distinct part_name_neq [symmetric])
    have not_single: "\<not> (length cs = 1 \<and> chunk_name (cs ! 0) = fname)"
    proof
      assume a: "length cs = 1 \<and> chunk_name (cs ! 0) = fname"
      then have "cs ! 0 \<in> set cs" by simp
      then have "chunk_name (cs ! 0) \<in> set paths" by (simp add: paths_def)
      with a other show False by simp
    qed
    from chunked download_chunks_ok [of cs w1 "[]"] obtain w' where
      w': "download_chunks cs [] w1 = (Some ([] @ map chunk_name cs), w')"
      "distinct (map chunk_name cs) \<longrightarrow>
         (\<forall>c \<in> set cs. save_dir w' (chunk_name c) = Some (snd (the (fetch w1 c))))"
      by blast
    from w'(2) dist have saved: "\<forall>c \<in> set cs. save_dir w' (chunk_name c) = Some (snd (the (fetch w1 c)))"
      by (simp add: paths_def)
    then have present: "\<forall>p \<in> set paths. save_dir w' p \<noteq> None"
      by (auto simp: paths_def)
    from merge_and_remove_ok [OF sorted dist other present] obtain w2 where
      w2: "merge_and_remove (sort paths) paths fname w' = (Inr (), w2)"
      "save_dir w2 fname = Some (concat (map (\<lambda>p. the (save_dir w' p)) paths))"
      by blast
    have "map (\<lambda>p. the (save_dir w' p)) paths = map (\<lambda>c. snd (the (fetch w1 c))) cs"
      using saved by (simp add: paths_def)
    with w2(2) chunked have "save_dir w2 fname = Some content"
      by simp
    moreover have "download_from_all_buckets fname w1 =
        (case download_chunks cs [] w1 of
           (None, w') \<Rightarrow> (Inr (), w')
         | (Some chunk_paths, w') \<Rightarrow> merge_and_remove (sort chunk_paths) chunk_paths fname w')"
      unfolding down using not_single by (rule if_not_P)
    then have "download_from_all_buckets fname w1 = (Inr (), w2)"
      using w'(1) w2(1) by (simp add: paths_def)
    ultimately show ?thesis by blast
  qed
qed

theorem round_trip_witness:
  "[] \<notin> set (token_dir two_pool)
   \<and> directory (metadata_doc two_pool) = []
   \<and> fst (upload_file ''0123456789ab'' ''f'' two_pool) = Inr ()
   \<and> length (chunks (last (directory (metadata_doc (snd (upload_file ''0123456789ab'' ''f'' two_pool)))))) = 2
   \<and> fst (download_from_all_buckets ''f'' (snd (upload_file ''0123456789ab'' ''f'' two_pool))) = Inr ()
   \<and> save_dir (snd (download_from_all_buckets ''f'' (snd (upload_file ''0123456789ab'' ''f'' two_pool)))) ''f''
       = Some ''0123456789ab''"
proof -
  let ?w1 = "snd (upload_file ''0123456789ab'' ''f'' two_pool)"
  have ids: "[] \<notin> set (token_dir two_pool)"
    by code_simp
  have old: "directory (metadata_doc two_pool) = []"
    by code_simp
  then have fresh: "\<forall>r \<in> set (directory (metadata_doc two_pool)). file_name r \<noteq> ''f''"
    by simp
  have ok: "fst (upload_file ''0123456789ab'' ''f'' two_pool) = Inr ()"
    by code_simp
  then have up: "upload_file ''0123456789ab'' ''f'' two_pool = (Inr (), ?w1)"
    by (metis prod.collapse)
  have two: "length (chunks (last (directory (metadata_doc ?w1)))) = 2"
    by code_simp
  then have few: "length (chunks (last (directory (metadata_doc ?w1)))) \<le> 9"
    by simp
  from round_trip [OF ids fresh up few] ids old ok two show ?thesis
    by auto
qed

end
